theory Spec2Isabelle
  imports Main "HOL-Library.Word"
begin

section \<open>Data model of \<^verbatim>\<open>contracts/FheGasEst.sol\<close>\<close>

text \<open>
  Solidity's \<^verbatim>\<open>uint256\<close> is a 256-bit word and \<^verbatim>\<open>address\<close> a 160-bit word.
  A \<^verbatim>\<open>string\<close> is a byte string, an array in memory a list.
\<close>

type_synonym uint256 = "256 word"
type_synonym address = "160 word"

record OperationCost =
  operationName :: string
  baseCost :: uint256
  perByteCost :: uint256

record ContractAnalysis =
  contractName :: string
  totalFheOps :: uint256
  estimatedGas :: uint256
  optimizationSuggestions :: "string list"

datatype event =
    OperationCostUpdated string uint256 uint256
  | ContractAnalyzed address uint256
  | OptimizationSuggested address string

text \<open>
  A call that does not return reverts: \<^verbatim>\<open>require(c, msg)\<close> with \<open>Error msg\<close>, checked
  arithmetic (the pragma is \<^verbatim>\<open>^0.8.24\<close>) with \<open>Panic 0x11\<close>, an array read out of range
  with \<open>Panic 0x32\<close>.
\<close>

datatype failure = Error string | Panic nat

text \<open>
  The contract's storage. A Solidity mapping is total: a key never written holds the
  zero value of its type. The event log is part of the state a call changes.
\<close>

record storage =
  operationCosts :: "string \<Rightarrow> OperationCost"
  contractAnalyses :: "address \<Rightarrow> ContractAnalysis"
  analyzedContracts :: "address list"
  analysisCount :: uint256
  events :: "event list"

definition zeroOperationCost :: OperationCost where
  "zeroOperationCost = \<lparr>operationName = [], baseCost = 0, perByteCost = 0\<rparr>"

definition zeroContractAnalysis :: ContractAnalysis where
  "zeroContractAnalysis =
     \<lparr>contractName = [], totalFheOps = 0, estimatedGas = 0, optimizationSuggestions = []\<rparr>"

section \<open>Checked arithmetic\<close>

definition checked_add :: "uint256 \<Rightarrow> uint256 \<Rightarrow> failure + uint256" where
  "checked_add a b = (if unat a + unat b < 2 ^ 256 then Inr (a + b) else Inl (Panic 0x11))"

definition checked_mul :: "uint256 \<Rightarrow> uint256 \<Rightarrow> failure + uint256" where
  "checked_mul a b = (if unat a * unat b < 2 ^ 256 then Inr (a * b) else Inl (Panic 0x11))"

section \<open>The contract\<close>

text \<open>
  The constructor seeds twelve entries; everything else is zero. The contract inherits
  \<^verbatim>\<open>SepoliaConfig\<close> of the fhEVM library, which none of its functions reads or writes;
  that part of the storage is left out.
\<close>

definition constructor :: storage where
  "constructor =
     \<lparr>operationCosts = (\<lambda>_. zeroOperationCost)
        (''FHE.add'' := \<lparr>operationName = ''FHE.add'', baseCost = 5000, perByteCost = 10\<rparr>,
         ''FHE.sub'' := \<lparr>operationName = ''FHE.sub'', baseCost = 5000, perByteCost = 10\<rparr>,
         ''FHE.mul'' := \<lparr>operationName = ''FHE.mul'', baseCost = 15000, perByteCost = 20\<rparr>,
         ''FHE.div'' := \<lparr>operationName = ''FHE.div'', baseCost = 20000, perByteCost = 25\<rparr>,
         ''FHE.gt'' := \<lparr>operationName = ''FHE.gt'', baseCost = 8000, perByteCost = 15\<rparr>,
         ''FHE.lt'' := \<lparr>operationName = ''FHE.lt'', baseCost = 8000, perByteCost = 15\<rparr>,
         ''FHE.eq'' := \<lparr>operationName = ''FHE.eq'', baseCost = 7000, perByteCost = 12\<rparr>,
         ''FHE.ne'' := \<lparr>operationName = ''FHE.ne'', baseCost = 7000, perByteCost = 12\<rparr>,
         ''FHE.and'' := \<lparr>operationName = ''FHE.and'', baseCost = 6000, perByteCost = 10\<rparr>,
         ''FHE.or'' := \<lparr>operationName = ''FHE.or'', baseCost = 6000, perByteCost = 10\<rparr>,
         ''FHE.not'' := \<lparr>operationName = ''FHE.not'', baseCost = 4000, perByteCost = 8\<rparr>,
         ''FHE.cast'' := \<lparr>operationName = ''FHE.cast'', baseCost = 3000, perByteCost = 5\<rparr>),
      contractAnalyses = (\<lambda>_. zeroContractAnalysis),
      analyzedContracts = [],
      analysisCount = 0,
      events = []\<rparr>"

definition updateOperationCost :: "string \<Rightarrow> uint256 \<Rightarrow> uint256 \<Rightarrow> storage \<Rightarrow> storage" where
  "updateOperationCost operation base perByte s =
     s\<lparr>operationCosts := (operationCosts s)
          (operation := \<lparr>operationName = operation, baseCost = base, perByteCost = perByte\<rparr>),
       events := events s @ [OperationCostUpdated operation base perByte]\<rparr>"

text \<open>
  \<^verbatim>\<open>appendString\<close> allocates an array one longer (every slot the empty string), copies
  slot by slot and writes the new element into the last slot.
\<close>

function appendString_copy :: "string list \<Rightarrow> nat \<Rightarrow> string list \<Rightarrow> string list" where
  "appendString_copy array i newArray =
     (if i < length array then appendString_copy array (Suc i) (newArray[i := array ! i])
      else newArray)"
  by pat_completeness auto
termination
  by (relation "measure (\<lambda>(array, i, newArray). length array - i)") auto

definition appendString :: "string list \<Rightarrow> string \<Rightarrow> string list" where
  "appendString array element =
     (let newArray = replicate (length array + 1) [];
          newArray = appendString_copy array 0 newArray
      in newArray[length array := element])"

text \<open>
  The local variables of \<^verbatim>\<open>analyzeContract\<close> that the loop updates, together with the
  events the loop has emitted.
\<close>

record locals =
  totalGas :: uint256
  totalOps :: uint256
  suggestions :: "string list"
  emitted :: "event list"

text \<open>
  One pass through the loop body, at index \<open>i\<close>. \<^verbatim>\<open>Strings.toString\<close> is a library
  function that the repository does not contain; it is the parameter \<open>toString\<close>.
\<close>

definition loop_body ::
  "(uint256 \<Rightarrow> string) \<Rightarrow> storage \<Rightarrow> address \<Rightarrow> string list \<Rightarrow> uint256 list \<Rightarrow> uint256
     \<Rightarrow> nat \<Rightarrow> locals \<Rightarrow> failure + locals" where
  "loop_body toString s contractAddress operations operationCounts avgDataSize i l =
     (let cost = operationCosts s (operations ! i) in
      if \<not> baseCost cost > 0 then Inl (Error ''Unknown operation'')
      else case checked_mul (perByteCost cost) avgDataSize of
        Inl e \<Rightarrow> Inl e
      | Inr perByteGas \<Rightarrow>
      (case checked_add (baseCost cost) perByteGas of
        Inl e \<Rightarrow> Inl e
      | Inr opGas \<Rightarrow>
      if \<not> i < length operationCounts then Inl (Panic 0x32)
      else case checked_mul opGas (operationCounts ! i) of
        Inl e \<Rightarrow> Inl e
      | Inr gas \<Rightarrow>
      (case checked_add (totalGas l) gas of
        Inl e \<Rightarrow> Inl e
      | Inr totalGas' \<Rightarrow>
      (case checked_add (totalOps l) (operationCounts ! i) of
        Inl e \<Rightarrow> Inl e
      | Inr totalOps' \<Rightarrow>
      if baseCost cost > 10000 \<and> operationCounts ! i > 5 then
        let suggestion = ''Consider reducing calls to '' @ operations ! i @
                         '' ('' @ toString (operationCounts ! i) @ '' calls)''
        in Inr \<lparr>totalGas = totalGas', totalOps = totalOps',
                suggestions = appendString (suggestions l) suggestion,
                emitted = emitted l @ [OptimizationSuggested contractAddress suggestion]\<rparr>
      else Inr \<lparr>totalGas = totalGas', totalOps = totalOps',
                suggestions = suggestions l, emitted = emitted l\<rparr>))))"

text \<open>
  The \<^verbatim>\<open>for\<close> loop from index \<open>i\<close> on. The index is below the length of an array in
  memory, so \<^verbatim>\<open>i++\<close> never overflows and \<open>i\<close> is a natural number.
\<close>

function for_loop ::
  "(uint256 \<Rightarrow> string) \<Rightarrow> storage \<Rightarrow> address \<Rightarrow> string list \<Rightarrow> uint256 list \<Rightarrow> uint256
     \<Rightarrow> nat \<Rightarrow> locals \<Rightarrow> failure + locals" where
  "for_loop toString s contractAddress operations operationCounts avgDataSize i l =
     (if i < length operations then
        case loop_body toString s contractAddress operations operationCounts avgDataSize i l of
          Inl e \<Rightarrow> Inl e
        | Inr l' \<Rightarrow>
            for_loop toString s contractAddress operations operationCounts avgDataSize (Suc i) l'
      else Inr l)"
  by pat_completeness auto
termination
  by (relation "measure (\<lambda>(toString, s, contractAddress, operations, operationCounts,
                            avgDataSize, i, l). length operations - i)") auto

text \<open>
  \<^verbatim>\<open>analyzeContract\<close>: the result and the storage after the call, or the failure that
  reverts it.
\<close>

definition analyzeContract ::
  "(uint256 \<Rightarrow> string) \<Rightarrow> address \<Rightarrow> string \<Rightarrow> string list \<Rightarrow> uint256 list \<Rightarrow> uint256
     \<Rightarrow> storage \<Rightarrow> failure + (ContractAnalysis \<times> storage)" where
  "analyzeContract toString contractAddress name operations operationCounts avgDataSize s =
     (if length operations \<noteq> length operationCounts then Inl (Error ''Invalid input lengths'')
      else case for_loop toString s contractAddress operations operationCounts avgDataSize 0
                  \<lparr>totalGas = 0, totalOps = 0, suggestions = [], emitted = []\<rparr> of
        Inl e \<Rightarrow> Inl e
      | Inr l \<Rightarrow>
          let analysis = \<lparr>contractName = name, totalFheOps = totalOps l,
                          estimatedGas = totalGas l,
                          optimizationSuggestions = suggestions l\<rparr>;
              s = s\<lparr>events := events s @ emitted l\<rparr>;
              s = s\<lparr>contractAnalyses := (contractAnalyses s)(contractAddress := analysis)\<rparr>;
              s = s\<lparr>analyzedContracts := analyzedContracts s @ [contractAddress]\<rparr>
          in case checked_add (analysisCount s) 1 of
               Inl e \<Rightarrow> Inl e
             | Inr n \<Rightarrow>
                 let s = s\<lparr>analysisCount := n\<rparr>;
                     s = s\<lparr>events := events s @ [ContractAnalyzed contractAddress (totalGas l)]\<rparr>
                 in Inr (analysis, s))"

definition getAnalysis :: "address \<Rightarrow> storage \<Rightarrow> ContractAnalysis" where
  "getAnalysis contractAddress s = contractAnalyses s contractAddress"

definition estimateSingleOperation :: "string \<Rightarrow> uint256 \<Rightarrow> storage \<Rightarrow> failure + uint256" where
  "estimateSingleOperation operation dataSize s =
     (let cost = operationCosts s operation in
      if \<not> baseCost cost > 0 then Inl (Error ''Unknown operation'')
      else case checked_mul (perByteCost cost) dataSize of
        Inl e \<Rightarrow> Inl e
      | Inr perByteGas \<Rightarrow> checked_add (baseCost cost) perByteGas)"

definition getAllAnalyzedContracts :: "storage \<Rightarrow> address list" where
  "getAllAnalyzedContracts s = analyzedContracts s"

text \<open>
  A call as a transaction: a call that reverts leaves the storage as it was before the
  call, whatever the call had written before it failed.
\<close>

definition transact :: "(storage \<Rightarrow> failure + ('a \<times> storage)) \<Rightarrow> storage \<Rightarrow> (failure + 'a) \<times> storage" where
  "transact f s = (case f s of Inl e \<Rightarrow> (Inl e, s) | Inr (r, s') \<Rightarrow> (Inr r, s'))"

text \<open>The states the contract can be in: constructed, then any sequence of calls.\<close>

inductive reachable :: "(uint256 \<Rightarrow> string) \<Rightarrow> storage \<Rightarrow> bool"
  for toString :: "uint256 \<Rightarrow> string" where
  constructed: "reachable toString constructor"
| updated: "reachable toString s \<Longrightarrow> reachable toString (updateOperationCost operation base perByte s)"
| analyzed: "reachable toString s \<Longrightarrow>
     transact (analyzeContract toString contractAddress name operations operationCounts avgDataSize) s = (r, s')
     \<Longrightarrow> reachable toString s'"

section \<open>What the specification says, for comparison\<close>

text \<open>
  The quantities of the specification, over the natural numbers (no wrap-around), named
  \<open>spec_\<close>. An operation is registered when its base cost is not the zero sentinel.
\<close>

definition registered :: "storage \<Rightarrow> string \<Rightarrow> bool" where
  "registered s operation = (baseCost (operationCosts s operation) \<noteq> 0)"

definition spec_opGas :: "storage \<Rightarrow> uint256 \<Rightarrow> string \<Rightarrow> nat" where
  "spec_opGas s dataSize operation =
     unat (baseCost (operationCosts s operation)) +
     unat (perByteCost (operationCosts s operation)) * unat dataSize"

text \<open>The sums of the specification over the indices from \<open>i\<close> up to, not including, \<open>k\<close>.\<close>

definition spec_gas_range :: "storage \<Rightarrow> string list \<Rightarrow> uint256 list \<Rightarrow> uint256 \<Rightarrow> nat \<Rightarrow> nat \<Rightarrow> nat" where
  "spec_gas_range s operations operationCounts avgDataSize i k =
     (\<Sum>j = i..<k. spec_opGas s avgDataSize (operations ! j) * unat (operationCounts ! j))"

definition spec_ops_range :: "uint256 list \<Rightarrow> nat \<Rightarrow> nat \<Rightarrow> nat" where
  "spec_ops_range operationCounts i k = (\<Sum>j = i..<k. unat (operationCounts ! j))"

definition spec_estimatedGas :: "storage \<Rightarrow> string list \<Rightarrow> uint256 list \<Rightarrow> uint256 \<Rightarrow> nat" where
  "spec_estimatedGas s operations operationCounts avgDataSize =
     (\<Sum>i<length operations. spec_opGas s avgDataSize (operations ! i) * unat (operationCounts ! i))"

definition spec_totalFheOps :: "uint256 list \<Rightarrow> nat" where
  "spec_totalFheOps operationCounts = (\<Sum>i<length operationCounts. unat (operationCounts ! i))"

definition spec_flagged :: "storage \<Rightarrow> string list \<Rightarrow> uint256 list \<Rightarrow> nat \<Rightarrow> bool" where
  "spec_flagged s operations operationCounts i =
     (baseCost (operationCosts s (operations ! i)) > 10000 \<and> operationCounts ! i > 5)"

definition suggestion_text :: "(uint256 \<Rightarrow> string) \<Rightarrow> string list \<Rightarrow> uint256 list \<Rightarrow> nat \<Rightarrow> string" where
  "suggestion_text toString operations operationCounts i =
     ''Consider reducing calls to '' @ operations ! i @
     '' ('' @ toString (operationCounts ! i) @ '' calls)''"

definition spec_suggestions ::
  "(uint256 \<Rightarrow> string) \<Rightarrow> storage \<Rightarrow> string list \<Rightarrow> uint256 list \<Rightarrow> string list" where
  "spec_suggestions toString s operations operationCounts =
     map (suggestion_text toString operations operationCounts)
       (filter (spec_flagged s operations operationCounts) [0..<length operations])"

text \<open>
  One pass of the loop stays within 256 bits: the gas of the operation, the new total
  gas and the new total count all fit.
\<close>

definition step_fits :: "storage \<Rightarrow> string list \<Rightarrow> uint256 list \<Rightarrow> uint256 \<Rightarrow> nat \<Rightarrow> locals \<Rightarrow> bool" where
  "step_fits s operations operationCounts avgDataSize i l =
     (spec_opGas s avgDataSize (operations ! i) < 2 ^ 256 \<and>
      unat (totalGas l) + spec_opGas s avgDataSize (operations ! i) * unat (operationCounts ! i) < 2 ^ 256 \<and>
      unat (totalOps l) + unat (operationCounts ! i) < 2 ^ 256)"

text \<open>
  A decimal rendering of a number, to run the contract on concrete inputs: what
  \<^verbatim>\<open>Strings.toString\<close> of the OpenZeppelin library returns.
\<close>

fun decimal :: "nat \<Rightarrow> string" where
  "decimal n =
     (if n < 10 then [''0123456789'' ! n]
      else decimal (n div 10) @ [''0123456789'' ! (n mod 10)])"

definition toString_decimal :: "uint256 \<Rightarrow> string" where
  "toString_decimal x = decimal (unat x)"

section \<open>Auxiliary facts\<close>

declare for_loop.simps [simp del] appendString_copy.simps [simp del] decimal.simps [simp del]

lemma appendString_copy_inv:
  "i \<le> length array \<Longrightarrow>
   appendString_copy array i (take i array @ replicate (length array + 1 - i) []) = array @ [[]]"
proof (induction "length array - i" arbitrary: i)
  case 0
  then show ?case by (simp add: appendString_copy.simps)
next
  case (Suc d)
  then have lt: "i < length array" by simp
  have upd: "(take i array @ replicate (length array + 1 - i) [])[i := array ! i]
        = take (Suc i) array @ replicate (length array + 1 - Suc i) []"
    using lt by (simp add: list_update_append take_Suc_conv_app_nth Suc_diff_le)
  have "appendString_copy array (Suc i) (take (Suc i) array @ replicate (length array + 1 - Suc i) []) = array @ [[]]"
    using Suc lt by (intro Suc.hyps(1)) simp_all
  then show ?case using lt upd by (subst appendString_copy.simps) simp
qed

lemma appendString_eq: "appendString array element = array @ [element]"
  using appendString_copy_inv [of 0 array] by (simp add: appendString_def)

lemma checked_add_fits:
  "unat a + unat b < 2 ^ 256 \<Longrightarrow> checked_add a b = Inr (a + b) \<and> unat (a + b) = unat a + unat b"
  using unat_add_lem [of a b] by (simp add: checked_add_def)

lemma checked_add_overflow: "\<not> unat a + unat b < 2 ^ 256 \<Longrightarrow> checked_add a b = Inl (Panic 0x11)"
  by (simp add: checked_add_def)

lemma checked_mul_fits:
  "unat a * unat b < 2 ^ 256 \<Longrightarrow> checked_mul a b = Inr (a * b) \<and> unat (a * b) = unat a * unat b"
  using unat_mult_lem [of a b] by (simp add: checked_mul_def)

lemma checked_mul_overflow: "\<not> unat a * unat b < 2 ^ 256 \<Longrightarrow> checked_mul a b = Inl (Panic 0x11)"
  by (simp add: checked_mul_def)

lemma loop_body_unknown:
  "\<not> registered s (operations ! i) \<Longrightarrow>
   loop_body toString s a operations operationCounts avg i l = Inl (Error ''Unknown operation'')"
  by (simp add: loop_body_def registered_def)

lemma loop_body_ok:
  assumes reg: "registered s (operations ! i)"
    and i: "i < length operationCounts"
    and fits: "step_fits s operations operationCounts avg i l"
  shows "\<exists>l'. loop_body toString s a operations operationCounts avg i l = Inr l' \<and>
     unat (totalGas l') = unat (totalGas l) + spec_opGas s avg (operations ! i) * unat (operationCounts ! i) \<and>
     unat (totalOps l') = unat (totalOps l) + unat (operationCounts ! i) \<and>
     suggestions l' = suggestions l @
       (if spec_flagged s operations operationCounts i
        then [suggestion_text toString operations operationCounts i] else []) \<and>
     emitted l' = emitted l @
       (if spec_flagged s operations operationCounts i
        then [OptimizationSuggested a (suggestion_text toString operations operationCounts i)] else [])"
proof -
  define b where "b = baseCost (operationCosts s (operations ! i))"
  define p where "p = perByteCost (operationCosts s (operations ! i))"
  define c where "c = operationCounts ! i"
  have g: "unat b + unat p * unat avg < 2 ^ 256"
    and tg: "unat (totalGas l) + (unat b + unat p * unat avg) * unat c < 2 ^ 256"
    and tc: "unat (totalOps l) + unat c < 2 ^ 256"
    using fits by (simp_all add: step_fits_def spec_opGas_def b_def p_def c_def)
  have b0: "0 < b" using reg by (simp add: registered_def b_def word_neq_0_conv)
  from g have "unat p * unat avg < 2 ^ 256" by simp
  from checked_mul_fits [OF this]
  have m1: "checked_mul p avg = Inr (p * avg)" and u1: "unat (p * avg) = unat p * unat avg"
    by simp_all
  from g u1 have "unat b + unat (p * avg) < 2 ^ 256" by simp
  from checked_add_fits [OF this] u1
  have a1: "checked_add b (p * avg) = Inr (b + p * avg)"
    and u2: "unat (b + p * avg) = unat b + unat p * unat avg"
    by simp_all
  from tg u2 have "unat (b + p * avg) * unat c < 2 ^ 256" by simp
  from checked_mul_fits [OF this] u2
  have m2: "checked_mul (b + p * avg) c = Inr ((b + p * avg) * c)"
    and u3: "unat ((b + p * avg) * c) = (unat b + unat p * unat avg) * unat c"
    by simp_all
  from tg u3 have "unat (totalGas l) + unat ((b + p * avg) * c) < 2 ^ 256" by simp
  from checked_add_fits [OF this] u3
  have a2: "checked_add (totalGas l) ((b + p * avg) * c) = Inr (totalGas l + (b + p * avg) * c)"
    and u4: "unat (totalGas l + (b + p * avg) * c) = unat (totalGas l) + (unat b + unat p * unat avg) * unat c"
    by simp_all
  from checked_add_fits [OF tc]
  have a3: "checked_add (totalOps l) c = Inr (totalOps l + c)"
    and u5: "unat (totalOps l + c) = unat (totalOps l) + unat c"
    by simp_all
  show ?thesis
    using b0 i m1 a1 m2 a2 a3 u4 u5
    unfolding loop_body_def b_def [symmetric] p_def [symmetric] c_def [symmetric] Let_def
    by (simp add: spec_opGas_def spec_flagged_def suggestion_text_def appendString_eq
          b_def [symmetric] p_def [symmetric] c_def [symmetric])
qed

lemma loop_body_panic:
  assumes reg: "registered s (operations ! i)"
    and i: "i < length operationCounts"
    and nofit: "\<not> step_fits s operations operationCounts avg i l"
  shows "loop_body toString s a operations operationCounts avg i l = Inl (Panic 0x11)"
proof -
  define b where "b = baseCost (operationCosts s (operations ! i))"
  define p where "p = perByteCost (operationCosts s (operations ! i))"
  define c where "c = operationCounts ! i"
  have b0: "0 < b" using reg by (simp add: registered_def b_def word_neq_0_conv)
  have body: "loop_body toString s a operations operationCounts avg i l =
      (case checked_mul p avg of Inl e \<Rightarrow> Inl e | Inr perByteGas \<Rightarrow>
       (case checked_add b perByteGas of Inl e \<Rightarrow> Inl e | Inr opGas \<Rightarrow>
        (case checked_mul opGas c of Inl e \<Rightarrow> Inl e | Inr gas \<Rightarrow>
         (case checked_add (totalGas l) gas of Inl e \<Rightarrow> Inl e | Inr totalGas' \<Rightarrow>
          (case checked_add (totalOps l) c of Inl e \<Rightarrow> Inl e | Inr totalOps' \<Rightarrow>
            Inr (if 10000 < b \<and> 5 < c then
              \<lparr>totalGas = totalGas', totalOps = totalOps',
                suggestions = appendString (suggestions l) (suggestion_text toString operations operationCounts i),
                emitted = emitted l @ [OptimizationSuggested a (suggestion_text toString operations operationCounts i)]\<rparr>
              else \<lparr>totalGas = totalGas', totalOps = totalOps',
                suggestions = suggestions l, emitted = emitted l\<rparr>))))))"
    using b0 i
    unfolding loop_body_def b_def [symmetric] p_def [symmetric] c_def [symmetric] Let_def
    by (auto simp: suggestion_text_def b_def [symmetric] p_def [symmetric] c_def [symmetric] split: sum.splits)
  consider (m1) "\<not> unat p * unat avg < 2 ^ 256"
    | (a1) "unat p * unat avg < 2 ^ 256" "\<not> unat b + unat p * unat avg < 2 ^ 256"
    | (m2) "unat b + unat p * unat avg < 2 ^ 256"
           "\<not> (unat b + unat p * unat avg) * unat c < 2 ^ 256"
    | (a2) "unat b + unat p * unat avg < 2 ^ 256"
           "(unat b + unat p * unat avg) * unat c < 2 ^ 256"
           "\<not> unat (totalGas l) + (unat b + unat p * unat avg) * unat c < 2 ^ 256"
    | (a3) "unat b + unat p * unat avg < 2 ^ 256"
           "unat (totalGas l) + (unat b + unat p * unat avg) * unat c < 2 ^ 256"
           "\<not> unat (totalOps l) + unat c < 2 ^ 256"
    using nofit unfolding step_fits_def spec_opGas_def b_def [symmetric] p_def [symmetric] c_def [symmetric]
    by linarith
  then show ?thesis
  proof cases
    case m1
    then show ?thesis by (simp add: body checked_mul_overflow)
  next
    case a1
    then show ?thesis
      using checked_mul_fits [of p avg]
      by (simp add: body checked_add_overflow)
  next
    case m2
    then have pm: "unat p * unat avg < 2 ^ 256" by simp
    show ?thesis
      using m2 checked_mul_fits [OF pm] checked_add_fits [of b "p * avg"]
      by (simp add: body checked_mul_overflow)
  next
    case a2
    then have pm: "unat p * unat avg < 2 ^ 256" by simp
    show ?thesis
      using a2 checked_mul_fits [OF pm] checked_add_fits [of b "p * avg"]
        checked_mul_fits [of "b + p * avg" c]
      by (simp add: body checked_add_overflow)
  next
    case a3
    then have pm: "unat p * unat avg < 2 ^ 256" by simp
    from a3 have cm: "(unat b + unat p * unat avg) * unat c < 2 ^ 256" by simp
    show ?thesis
      using a3 cm checked_mul_fits [OF pm] checked_add_fits [of b "p * avg"]
        checked_mul_fits [of "b + p * avg" c]
        checked_add_fits [of "totalGas l" "(b + p * avg) * c"]
      by (simp add: body checked_add_overflow)
  qed
qed

lemma for_loop_stop:
  "\<not> i < length operations \<Longrightarrow>
   for_loop toString s a operations operationCounts avg i l = Inr l"
  by (subst for_loop.simps) simp

lemma for_loop_step:
  "i < length operations \<Longrightarrow>
   for_loop toString s a operations operationCounts avg i l =
     (case loop_body toString s a operations operationCounts avg i l of
        Inl e \<Rightarrow> Inl e
      | Inr l' \<Rightarrow> for_loop toString s a operations operationCounts avg (Suc i) l')"
  by (subst for_loop.simps) simp

lemma spec_gas_range_empty [simp]: "k \<le> i \<Longrightarrow> spec_gas_range s operations operationCounts avg i k = 0"
  by (simp add: spec_gas_range_def)

lemma spec_ops_range_empty [simp]: "k \<le> i \<Longrightarrow> spec_ops_range operationCounts i k = 0"
  by (simp add: spec_ops_range_def)

lemma spec_gas_range_first:
  "i < k \<Longrightarrow> spec_gas_range s operations operationCounts avg i k =
     spec_opGas s avg (operations ! i) * unat (operationCounts ! i) +
     spec_gas_range s operations operationCounts avg (Suc i) k"
  by (simp add: spec_gas_range_def sum.atLeast_Suc_lessThan)

lemma spec_ops_range_first:
  "i < k \<Longrightarrow> spec_ops_range operationCounts i k =
     unat (operationCounts ! i) + spec_ops_range operationCounts (Suc i) k"
  by (simp add: spec_ops_range_def sum.atLeast_Suc_lessThan)

lemma spec_estimatedGas_range:
  "spec_estimatedGas s operations operationCounts avg =
   spec_gas_range s operations operationCounts avg 0 (length operations)"
  by (simp add: spec_estimatedGas_def spec_gas_range_def lessThan_atLeast0)

lemma spec_totalFheOps_range:
  "spec_totalFheOps operationCounts = spec_ops_range operationCounts 0 (length operationCounts)"
  by (simp add: spec_totalFheOps_def spec_ops_range_def lessThan_atLeast0)

text \<open>What a loop that runs to its end has computed.\<close>

lemma for_loop_Inr:
  "for_loop toString s a operations operationCounts avg i l = Inr l' \<Longrightarrow>
   length operations = length operationCounts \<Longrightarrow>
   unat (totalGas l') =
     unat (totalGas l) + spec_gas_range s operations operationCounts avg i (length operations) \<and>
   unat (totalOps l') =
     unat (totalOps l) + spec_ops_range operationCounts i (length operations) \<and>
   suggestions l' = suggestions l @
     map (suggestion_text toString operations operationCounts)
       (filter (spec_flagged s operations operationCounts) [i..<length operations]) \<and>
   emitted l' = emitted l @
     map (\<lambda>k. OptimizationSuggested a (suggestion_text toString operations operationCounts k))
       (filter (spec_flagged s operations operationCounts) [i..<length operations]) \<and>
   (\<forall>k. i \<le> k \<and> k < length operations \<longrightarrow> registered s (operations ! k))"
proof (induction toString s a operations operationCounts avg i l rule: for_loop.induct)
  case (1 toString s a operations operationCounts avg i l)
  show ?case
  proof (cases "i < length operations")
    case False
    with "1.prems" show ?thesis by (auto simp: for_loop_stop)
  next
    case True
    then have ic: "i < length operationCounts" using "1.prems" by simp
    from "1.prems"(1) True obtain l1
      where body: "loop_body toString s a operations operationCounts avg i l = Inr l1"
        and rest: "for_loop toString s a operations operationCounts avg (Suc i) l1 = Inr l'"
      by (auto simp: for_loop_step split: sum.splits)
    have reg: "registered s (operations ! i)"
      using body loop_body_unknown [of s operations i toString a operationCounts avg l] by auto
    have fits: "step_fits s operations operationCounts avg i l"
      using body loop_body_panic [OF reg ic, of avg l toString a] by auto
    from loop_body_ok [OF reg ic fits, of toString a] body
    have l1: "unat (totalGas l1) = unat (totalGas l) +
          spec_opGas s avg (operations ! i) * unat (operationCounts ! i)"
        "unat (totalOps l1) = unat (totalOps l) + unat (operationCounts ! i)"
        "suggestions l1 = suggestions l @
           (if spec_flagged s operations operationCounts i
            then [suggestion_text toString operations operationCounts i] else [])"
        "emitted l1 = emitted l @
           (if spec_flagged s operations operationCounts i
            then [OptimizationSuggested a (suggestion_text toString operations operationCounts i)] else [])"
      by auto
    note ih = "1.IH" [OF True body rest "1.prems"(2)]
    have regs: "\<forall>k. i \<le> k \<and> k < length operations \<longrightarrow> registered s (operations ! k)"
    proof (intro allI impI)
      fix k assume k: "i \<le> k \<and> k < length operations"
      show "registered s (operations ! k)"
      proof (cases "k = i")
        case True then show ?thesis using reg by simp
      next
        case False
        with k have "Suc i \<le> k \<and> k < length operations" by simp
        with ih show ?thesis by blast
      qed
    qed
    show ?thesis
      using ih l1 regs True
      by (simp add: spec_gas_range_first spec_ops_range_first upt_conv_Cons)
  qed
qed

text \<open>A loop in which every operation is registered and every sum fits runs to its end.\<close>

lemma for_loop_fits:
  "length operations = length operationCounts \<Longrightarrow>
   \<forall>k. i \<le> k \<and> k < length operations \<longrightarrow>
     registered s (operations ! k) \<and> spec_opGas s avg (operations ! k) < 2 ^ 256 \<Longrightarrow>
   unat (totalGas l) + spec_gas_range s operations operationCounts avg i (length operations) < 2 ^ 256 \<Longrightarrow>
   unat (totalOps l) + spec_ops_range operationCounts i (length operations) < 2 ^ 256 \<Longrightarrow>
   \<exists>l'. for_loop toString s a operations operationCounts avg i l = Inr l'"
proof (induction toString s a operations operationCounts avg i l rule: for_loop.induct)
  case (1 toString s a operations operationCounts avg i l)
  show ?case
  proof (cases "i < length operations")
    case False
    then show ?thesis by (simp add: for_loop_stop)
  next
    case True
    then have ic: "i < length operationCounts" using "1.prems" by simp
    have reg: "registered s (operations ! i)"
      and og: "spec_opGas s avg (operations ! i) < 2 ^ 256"
      using "1.prems"(2) True by auto
    have fits: "step_fits s operations operationCounts avg i l"
      using og "1.prems"(3,4) True
      by (simp add: step_fits_def spec_gas_range_first spec_ops_range_first)
    from loop_body_ok [OF reg ic fits, of toString a] obtain l1
      where body: "loop_body toString s a operations operationCounts avg i l = Inr l1"
        and g1: "unat (totalGas l1) = unat (totalGas l) +
          spec_opGas s avg (operations ! i) * unat (operationCounts ! i)"
        and o1: "unat (totalOps l1) = unat (totalOps l) + unat (operationCounts ! i)"
      by blast
    have "\<exists>l'. for_loop toString s a operations operationCounts avg (Suc i) l1 = Inr l'"
    proof (rule "1.IH" [OF True body "1.prems"(1)])
      show "\<forall>k. Suc i \<le> k \<and> k < length operations \<longrightarrow>
          registered s (operations ! k) \<and> spec_opGas s avg (operations ! k) < 2 ^ 256"
        using "1.prems"(2) by auto
      show "unat (totalGas l1) +
          spec_gas_range s operations operationCounts avg (Suc i) (length operations) < 2 ^ 256"
        using "1.prems"(3) g1 True by (simp add: spec_gas_range_first)
      show "unat (totalOps l1) + spec_ops_range operationCounts (Suc i) (length operations) < 2 ^ 256"
        using "1.prems"(4) o1 True by (simp add: spec_ops_range_first)
    qed
    then show ?thesis using True body by (simp add: for_loop_step)
  qed
qed

text \<open>
  A loop that reaches an unregistered operation at index \<open>k\<close>, every step before it
  within range, stops there.
\<close>

lemma for_loop_unknown:
  "length operations = length operationCounts \<Longrightarrow>
   i \<le> k \<Longrightarrow> k < length operations \<Longrightarrow> \<not> registered s (operations ! k) \<Longrightarrow>
   \<forall>j. i \<le> j \<and> j < k \<longrightarrow>
     registered s (operations ! j) \<and> spec_opGas s avg (operations ! j) < 2 ^ 256 \<Longrightarrow>
   unat (totalGas l) + spec_gas_range s operations operationCounts avg i k < 2 ^ 256 \<Longrightarrow>
   unat (totalOps l) + spec_ops_range operationCounts i k < 2 ^ 256 \<Longrightarrow>
   for_loop toString s a operations operationCounts avg i l = Inl (Error ''Unknown operation'')"
proof (induction toString s a operations operationCounts avg i l rule: for_loop.induct)
  case (1 toString s a operations operationCounts avg i l)
  have True: "i < length operations" using "1.prems"(2,3) by simp
  then have ic: "i < length operationCounts" using "1.prems"(1) by simp
  show ?case
  proof (cases "i = k")
    case True
    then show ?thesis
      using "1.prems"(3,4) by (simp add: for_loop_step loop_body_unknown)
  next
    case False
    then have ik: "i < k" using "1.prems"(2) by simp
    have reg: "registered s (operations ! i)"
      and og: "spec_opGas s avg (operations ! i) < 2 ^ 256"
      using "1.prems"(5) ik by auto
    have fits: "step_fits s operations operationCounts avg i l"
      using og "1.prems"(6,7) ik
      by (simp add: step_fits_def spec_gas_range_first spec_ops_range_first)
    from loop_body_ok [OF reg ic fits, of toString a] obtain l1
      where body: "loop_body toString s a operations operationCounts avg i l = Inr l1"
        and g1: "unat (totalGas l1) = unat (totalGas l) +
          spec_opGas s avg (operations ! i) * unat (operationCounts ! i)"
        and o1: "unat (totalOps l1) = unat (totalOps l) + unat (operationCounts ! i)"
      by blast
    have "for_loop toString s a operations operationCounts avg (Suc i) l1 =
        Inl (Error ''Unknown operation'')"
    proof (rule "1.IH" [OF True body "1.prems"(1) _ "1.prems"(3,4)])
      show "Suc i \<le> k" using ik by simp
      show "\<forall>j. Suc i \<le> j \<and> j < k \<longrightarrow>
          registered s (operations ! j) \<and> spec_opGas s avg (operations ! j) < 2 ^ 256"
        using "1.prems"(5) by auto
      show "unat (totalGas l1) + spec_gas_range s operations operationCounts avg (Suc i) k < 2 ^ 256"
        using "1.prems"(6) g1 ik by (simp add: spec_gas_range_first)
      show "unat (totalOps l1) + spec_ops_range operationCounts (Suc i) k < 2 ^ 256"
        using "1.prems"(7) o1 ik by (simp add: spec_ops_range_first)
    qed
    then show ?thesis using True body by (simp add: for_loop_step)
  qed
qed

text \<open>
  A loop in which the operations up to index \<open>k\<close> are registered and a sum up to that
  index leaves the range fails with the arithmetic panic.
\<close>

lemma for_loop_overflow:
  "length operations = length operationCounts \<Longrightarrow>
   i \<le> k \<Longrightarrow> k < length operations \<Longrightarrow>
   \<forall>j. i \<le> j \<and> j \<le> k \<longrightarrow> registered s (operations ! j) \<Longrightarrow>
   \<not> (spec_opGas s avg (operations ! k) < 2 ^ 256 \<and>
      unat (totalGas l) + spec_gas_range s operations operationCounts avg i (Suc k) < 2 ^ 256 \<and>
      unat (totalOps l) + spec_ops_range operationCounts i (Suc k) < 2 ^ 256) \<Longrightarrow>
   for_loop toString s a operations operationCounts avg i l = Inl (Panic 0x11)"
proof (induction toString s a operations operationCounts avg i l rule: for_loop.induct)
  case (1 toString s a operations operationCounts avg i l)
  have True: "i < length operations" using "1.prems"(2,3) by simp
  then have ic: "i < length operationCounts" using "1.prems"(1) by simp
  have reg: "registered s (operations ! i)" using "1.prems"(2,4) by auto
  show ?case
  proof (cases "step_fits s operations operationCounts avg i l")
    case False
    from loop_body_panic [OF reg ic False, of toString a] show ?thesis
      using True by (simp add: for_loop_step)
  next
    case fits: True
    from loop_body_ok [OF reg ic fits, of toString a] obtain l1
      where body: "loop_body toString s a operations operationCounts avg i l = Inr l1"
        and g1: "unat (totalGas l1) = unat (totalGas l) +
          spec_opGas s avg (operations ! i) * unat (operationCounts ! i)"
        and o1: "unat (totalOps l1) = unat (totalOps l) + unat (operationCounts ! i)"
      by blast
    have ik: "i < k"
    proof (rule ccontr)
      assume "\<not> i < k"
      then have "i = k" using "1.prems"(2) by simp
      then show False
        using fits "1.prems"(5)
        by (simp add: step_fits_def spec_gas_range_first spec_ops_range_first)
    qed
    have "for_loop toString s a operations operationCounts avg (Suc i) l1 = Inl (Panic 0x11)"
    proof (rule "1.IH" [OF True body "1.prems"(1) _ "1.prems"(3)])
      show "Suc i \<le> k" using ik by simp
      show "\<forall>j. Suc i \<le> j \<and> j \<le> k \<longrightarrow> registered s (operations ! j)"
        using "1.prems"(4) by auto
      show "\<not> (spec_opGas s avg (operations ! k) < 2 ^ 256 \<and>
          unat (totalGas l1) + spec_gas_range s operations operationCounts avg (Suc i) (Suc k) < 2 ^ 256 \<and>
          unat (totalOps l1) + spec_ops_range operationCounts (Suc i) (Suc k) < 2 ^ 256)"
        using "1.prems"(5) g1 o1 ik
          spec_gas_range_first [of i "Suc k" s operations operationCounts avg]
          spec_ops_range_first [of i "Suc k" operationCounts]
        by (simp add: add.assoc)
    qed
    then show ?thesis using True body by (simp add: for_loop_step)
  qed
qed

lemma unat_max_uint256: "unat (- 1 :: uint256) = 2 ^ 256 - 1"
  by (simp add: unsigned_minus_1_eq_mask mask_eq_exp_minus_1)

lemma analyzeContract_mismatch:
  "length operations \<noteq> length operationCounts \<Longrightarrow>
   analyzeContract toString a name operations operationCounts avg s =
     Inl (Error ''Invalid input lengths'')"
  by (simp add: analyzeContract_def)

lemma analyzeContract_loop_fails:
  "length operations = length operationCounts \<Longrightarrow>
   for_loop toString s a operations operationCounts avg 0
     \<lparr>totalGas = 0, totalOps = 0, suggestions = [], emitted = []\<rparr> = Inl e \<Longrightarrow>
   analyzeContract toString a name operations operationCounts avg s = Inl e"
  by (simp add: analyzeContract_def)

lemma analyzeContract_loop_done:
  assumes len: "length operations = length operationCounts"
    and loop: "for_loop toString s a operations operationCounts avg 0
     \<lparr>totalGas = 0, totalOps = 0, suggestions = [], emitted = []\<rparr> = Inr l"
  shows "analyzeContract toString a name operations operationCounts avg s =
     (if analysisCount s = - 1 then Inl (Panic 0x11)
      else Inr (\<lparr>contractName = name, totalFheOps = totalOps l, estimatedGas = totalGas l,
                  optimizationSuggestions = suggestions l\<rparr>,
                s\<lparr>events := events s @ emitted l @ [ContractAnalyzed a (totalGas l)],
                  contractAnalyses := (contractAnalyses s)
                    (a := \<lparr>contractName = name, totalFheOps = totalOps l,
                           estimatedGas = totalGas l,
                           optimizationSuggestions = suggestions l\<rparr>),
                  analyzedContracts := analyzedContracts s @ [a],
                  analysisCount := analysisCount s + 1\<rparr>))"
proof (cases "analysisCount s = - 1")
  case True
  then have "\<not> unat (analysisCount s) + unat (1 :: uint256) < 2 ^ 256"
    by (simp add: unat_max_uint256)
  from checked_add_overflow [OF this] True len loop show ?thesis
    by (simp add: analyzeContract_def Let_def)
next
  case False
  have "unat (analysisCount s) < 2 ^ 256 - 1"
  proof (rule ccontr)
    assume "\<not> unat (analysisCount s) < 2 ^ 256 - 1"
    moreover have "unat (analysisCount s) < 2 ^ 256" using unsigned_less [of "analysisCount s"] by simp
    ultimately have "unat (analysisCount s) = unat (- 1 :: uint256)"
      by (simp add: unat_max_uint256)
    then show False using False by (simp only: word_unat_eq_iff [symmetric])
  qed
  then have "unat (analysisCount s) + unat (1 :: uint256) < 2 ^ 256" by simp
  from checked_add_fits [OF this] False len loop show ?thesis
    by (simp add: analyzeContract_def Let_def)
qed

lemma analyzeContract_InrD:
  assumes "analyzeContract toString a name operations operationCounts avg s = Inr (r, s')"
  shows "length operations = length operationCounts \<and> analysisCount s \<noteq> - 1 \<and>
    (\<exists>l. for_loop toString s a operations operationCounts avg 0
           \<lparr>totalGas = 0, totalOps = 0, suggestions = [], emitted = []\<rparr> = Inr l \<and>
         r = \<lparr>contractName = name, totalFheOps = totalOps l, estimatedGas = totalGas l,
               optimizationSuggestions = suggestions l\<rparr> \<and>
         s' = s\<lparr>events := events s @ emitted l @ [ContractAnalyzed a (totalGas l)],
                contractAnalyses := (contractAnalyses s)(a := r),
                analyzedContracts := analyzedContracts s @ [a],
                analysisCount := analysisCount s + 1\<rparr>)"
proof -
  have len: "length operations = length operationCounts"
    using assms analyzeContract_mismatch [of operations operationCounts toString a name avg s]
    by auto
  obtain l where l: "for_loop toString s a operations operationCounts avg 0
           \<lparr>totalGas = 0, totalOps = 0, suggestions = [], emitted = []\<rparr> = Inr l"
    using assms analyzeContract_loop_fails [OF len, of toString s a avg _ name]
    by (cases "for_loop toString s a operations operationCounts avg 0
           \<lparr>totalGas = 0, totalOps = 0, suggestions = [], emitted = []\<rparr>") auto
  from analyzeContract_loop_done [OF len l, of name] assms len l show ?thesis
    by (auto split: if_splits)
qed

lemma unat_uint256_less: "unat (w :: uint256) < 2 ^ 256"
proof -
  have "unat w < 2 ^ LENGTH(256)" by (rule unsigned_less)
  then show ?thesis by simp
qed

text \<open>Every operation registered: the loop runs to its end or panics, never anything else.\<close>

lemma for_loop_registered:
  assumes len: "length operations = length operationCounts"
    and reg: "\<forall>k. i \<le> k \<and> k < length operations \<longrightarrow> registered s (operations ! k)"
  shows "if (\<forall>k. i \<le> k \<and> k < length operations \<longrightarrow> spec_opGas s avg (operations ! k) < 2 ^ 256) \<and>
            unat (totalGas l) + spec_gas_range s operations operationCounts avg i (length operations) < 2 ^ 256 \<and>
            unat (totalOps l) + spec_ops_range operationCounts i (length operations) < 2 ^ 256
         then \<exists>l'. for_loop toString s a operations operationCounts avg i l = Inr l'
         else for_loop toString s a operations operationCounts avg i l = Inl (Panic 0x11)"
proof (cases "\<forall>k. i \<le> k \<and> k < length operations \<longrightarrow> spec_opGas s avg (operations ! k) < 2 ^ 256")
  case False
  then obtain k where k: "i \<le> k" "k < length operations"
      "\<not> spec_opGas s avg (operations ! k) < 2 ^ 256" by blast
  have "for_loop toString s a operations operationCounts avg i l = Inl (Panic 0x11)"
    using reg k by (intro for_loop_overflow [OF len k(1,2)]) auto
  with False show ?thesis by simp
next
  case opg: True
  show ?thesis
  proof (cases "unat (totalGas l) + spec_gas_range s operations operationCounts avg i (length operations) < 2 ^ 256 \<and>
            unat (totalOps l) + spec_ops_range operationCounts i (length operations) < 2 ^ 256")
    case True
    then show ?thesis
      using for_loop_fits [OF len, of i s avg l toString a] reg opg by simp
  next
    case False
    have "i < length operations"
    proof (rule ccontr)
      assume "\<not> i < length operations"
      then have "spec_gas_range s operations operationCounts avg i (length operations) = 0"
        "spec_ops_range operationCounts i (length operations) = 0" by simp_all
      with False unat_uint256_less [of "totalGas l"] unat_uint256_less [of "totalOps l"]
      show False by simp
    qed
    then obtain k where k: "length operations = Suc k" "i \<le> k"
      by (cases "length operations") auto
    have "for_loop toString s a operations operationCounts avg i l = Inl (Panic 0x11)"
    proof (rule for_loop_overflow [OF len k(2)])
      show "k < length operations" using k by simp
      show "\<forall>j. i \<le> j \<and> j \<le> k \<longrightarrow> registered s (operations ! j)" using reg k by auto
      show "\<not> (spec_opGas s avg (operations ! k) < 2 ^ 256 \<and>
          unat (totalGas l) + spec_gas_range s operations operationCounts avg i (Suc k) < 2 ^ 256 \<and>
          unat (totalOps l) + spec_ops_range operationCounts i (Suc k) < 2 ^ 256)"
        using False k by auto
    qed
    with False show ?thesis by auto
  qed
qed

text \<open>
  The first unregistered operation at index \<open>k\<close>: the loop stops there, unless a step
  before it has left the range.
\<close>

lemma for_loop_first_unregistered:
  assumes len: "length operations = length operationCounts"
    and k: "k < length operations" "\<not> registered s (operations ! k)"
    and first: "\<forall>j<k. registered s (operations ! j)"
  shows "for_loop toString s a operations operationCounts avg 0 l =
      Inl (if (\<forall>j<k. spec_opGas s avg (operations ! j) < 2 ^ 256) \<and>
              unat (totalGas l) + spec_gas_range s operations operationCounts avg 0 k < 2 ^ 256 \<and>
              unat (totalOps l) + spec_ops_range operationCounts 0 k < 2 ^ 256
           then Error ''Unknown operation'' else Panic 0x11)"
proof (cases "\<forall>j<k. spec_opGas s avg (operations ! j) < 2 ^ 256")
  case False
  then obtain j where j: "j < k" "\<not> spec_opGas s avg (operations ! j) < 2 ^ 256" by blast
  have "for_loop toString s a operations operationCounts avg 0 l = Inl (Panic 0x11)"
    using first j k by (intro for_loop_overflow [OF len, of 0 j]) auto
  with False show ?thesis by simp
next
  case opg: True
  show ?thesis
  proof (cases "unat (totalGas l) + spec_gas_range s operations operationCounts avg 0 k < 2 ^ 256 \<and>
            unat (totalOps l) + spec_ops_range operationCounts 0 k < 2 ^ 256")
    case True
    have "for_loop toString s a operations operationCounts avg 0 l = Inl (Error ''Unknown operation'')"
      using first opg True k by (intro for_loop_unknown [OF len, of 0 k]) auto
    with opg True show ?thesis by simp
  next
    case False
    have "0 < k"
    proof (rule ccontr)
      assume "\<not> 0 < k"
      then have "spec_gas_range s operations operationCounts avg 0 k = 0"
        "spec_ops_range operationCounts 0 k = 0" by simp_all
      with False unat_uint256_less [of "totalGas l"] unat_uint256_less [of "totalOps l"]
      show False by simp
    qed
    then obtain j where j: "k = Suc j" by (cases k) auto
    have "for_loop toString s a operations operationCounts avg 0 l = Inl (Panic 0x11)"
    proof (rule for_loop_overflow [OF len, of 0 j])
      show "0 \<le> j" by simp
      show "j < length operations" using k j by simp
      show "\<forall>i. 0 \<le> i \<and> i \<le> j \<longrightarrow> registered s (operations ! i)" using first j by auto
      show "\<not> (spec_opGas s avg (operations ! j) < 2 ^ 256 \<and>
          unat (totalGas l) + spec_gas_range s operations operationCounts avg 0 (Suc j) < 2 ^ 256 \<and>
          unat (totalOps l) + spec_ops_range operationCounts 0 (Suc j) < 2 ^ 256)"
        using False j by auto
    qed
    with False show ?thesis by auto
  qed
qed

lemma registered_nth:
  "\<forall>operation\<in>set operations. registered s operation \<Longrightarrow>
   \<forall>k. i \<le> k \<and> k < length operations \<longrightarrow> registered s (operations ! k)"
  by simp

lemma analyzeContract_totals:
  assumes "analyzeContract toString a name operations operationCounts avg s = Inr (r, s')"
  shows "unat (estimatedGas r) = spec_estimatedGas s operations operationCounts avg"
    and "unat (totalFheOps r) = spec_totalFheOps operationCounts"
    and "optimizationSuggestions r = spec_suggestions toString s operations operationCounts"
proof -
  from analyzeContract_InrD [OF assms] obtain l
    where len: "length operations = length operationCounts"
      and loop: "for_loop toString s a operations operationCounts avg 0
           \<lparr>totalGas = 0, totalOps = 0, suggestions = [], emitted = []\<rparr> = Inr l"
      and r: "r = \<lparr>contractName = name, totalFheOps = totalOps l, estimatedGas = totalGas l,
               optimizationSuggestions = suggestions l\<rparr>"
    by blast
  from for_loop_Inr [OF loop len] r len
  show "unat (estimatedGas r) = spec_estimatedGas s operations operationCounts avg"
    and "unat (totalFheOps r) = spec_totalFheOps operationCounts"
    and "optimizationSuggestions r = spec_suggestions toString s operations operationCounts"
    by (simp_all add: spec_estimatedGas_range spec_totalFheOps_range spec_suggestions_def)
qed

lemma estimateSingleOperation_registered:
  assumes reg: "registered s operation"
  shows "estimateSingleOperation operation dataSize s =
      (if spec_opGas s dataSize operation < 2 ^ 256
       then Inr (baseCost (operationCosts s operation) +
                 perByteCost (operationCosts s operation) * dataSize)
       else Inl (Panic 0x11))"
    and "spec_opGas s dataSize operation < 2 ^ 256 \<Longrightarrow>
       unat (baseCost (operationCosts s operation) +
             perByteCost (operationCosts s operation) * dataSize) = spec_opGas s dataSize operation"
proof -
  define b where "b = baseCost (operationCosts s operation)"
  define p where "p = perByteCost (operationCosts s operation)"
  have b0: "0 < b" using reg by (simp add: registered_def b_def word_neq_0_conv)
  have est: "estimateSingleOperation operation dataSize s =
      (case checked_mul p dataSize of Inl e \<Rightarrow> Inl e | Inr perByteGas \<Rightarrow> checked_add b perByteGas)"
    using b0 unfolding estimateSingleOperation_def Let_def b_def p_def by simp
  show "estimateSingleOperation operation dataSize s =
      (if spec_opGas s dataSize operation < 2 ^ 256
       then Inr (baseCost (operationCosts s operation) +
                 perByteCost (operationCosts s operation) * dataSize)
       else Inl (Panic 0x11))"
  proof (cases "unat p * unat dataSize < 2 ^ 256")
    case False
    then show ?thesis
      by (simp add: est checked_mul_overflow spec_opGas_def b_def [symmetric] p_def [symmetric])
  next
    case True
    from checked_mul_fits [OF True] show ?thesis
      by (simp add: est checked_add_def spec_opGas_def b_def [symmetric] p_def [symmetric])
  qed
  assume fit: "spec_opGas s dataSize operation < 2 ^ 256"
  then have g: "unat b + unat p * unat dataSize < 2 ^ 256"
    by (simp add: spec_opGas_def b_def p_def)
  then have "unat p * unat dataSize < 2 ^ 256" by simp
  from checked_mul_fits [OF this] have u: "unat (p * dataSize) = unat p * unat dataSize" by simp
  with g have "unat b + unat (p * dataSize) < 2 ^ 256" by simp
  from checked_add_fits [OF this] u
  show "unat (baseCost (operationCosts s operation) +
             perByteCost (operationCosts s operation) * dataSize) = spec_opGas s dataSize operation"
    by (simp add: spec_opGas_def b_def p_def)
qed

lemma unat_succ_uint256: "w \<noteq> - 1 \<Longrightarrow> unat (w + 1 :: uint256) = unat w + 1"
proof -
  assume nm: "w \<noteq> - 1"
  have "unat w < 2 ^ 256 - 1"
  proof (rule ccontr)
    assume "\<not> unat w < 2 ^ 256 - 1"
    with unat_uint256_less [of w] have "unat w = unat (- 1 :: uint256)"
      by (simp add: unat_max_uint256)
    then show False using nm by (simp only: word_unat_eq_iff [symmetric])
  qed
  then have "unat w + unat (1 :: uint256) < 2 ^ 256" by simp
  from checked_add_fits [OF this] show ?thesis by simp
qed

lemma analyzeContract_store:
  assumes "analyzeContract toString a name operations operationCounts avg s = Inr (r, s')"
  shows "contractAnalyses s' = (contractAnalyses s)(a := r)"
    and "analyzedContracts s' = analyzedContracts s @ [a]"
    and "unat (analysisCount s') = unat (analysisCount s) + 1"
    and "operationCosts s' = operationCosts s"
  using analyzeContract_InrD [OF assms] by (auto simp: unat_succ_uint256)

text \<open>Running the contract on a concrete input unfolds the loop step by step.\<close>

lemmas run_simps = analyzeContract_def for_loop_step for_loop_stop loop_body_def
  checked_add_def checked_mul_def appendString_eq Let_def

lemmas spec_simps = spec_estimatedGas_range spec_totalFheOps_range spec_gas_range_first
  spec_ops_range_first spec_opGas_def

section \<open>The claims\<close>

subsection \<open>C1: the totals of an analysis\<close>

text \<open>
  C1, as stated, fails: for a registered operation with a count of \<open>2 ^ 255\<close> the
  checked multiplication of its gas by the count panics in the first pass of the loop, so
  no analysis is returned.
\<close>

theorem analyze_registered_batch_panics:
  "registered constructor ''FHE.add'' \<and>
   analyzeContract toString_decimal 1 ''Token'' [''FHE.add'', ''FHE.add''] [2 ^ 255, 2 ^ 255] 0 constructor
     = Inl (Panic 0x11)"
  by (simp add: run_simps constructor_def registered_def)

text \<open>
  C1, amended: for every usage report with arrays of equal length in which every listed
  operation is registered, \<^verbatim>\<open>analyzeContract\<close> either reverts with the arithmetic panic
  or returns an analysis whose estimated gas is the sum over all indices of
  \<open>(baseCost + perByteCost * avgDataSize) * count\<close> and whose operation total is the sum
  of all counts, both as natural numbers (nothing wrapped). It returns whenever the gas of
  each operation and the two sums are below \<open>2 ^ 256\<close> and the analysis counter is not
  at its maximum.
\<close>

theorem analyze_totals:
  assumes len: "length operations = length operationCounts"
    and reg: "\<forall>operation\<in>set operations. registered s operation"
  shows "(case analyzeContract toString subjectId subjectName operations operationCounts avgDataSize s of
            Inl e \<Rightarrow> e = Panic 0x11
          | Inr (r, s') \<Rightarrow>
              unat (estimatedGas r) = spec_estimatedGas s operations operationCounts avgDataSize \<and>
              unat (totalFheOps r) = spec_totalFheOps operationCounts) \<and>
         ((\<forall>operation\<in>set operations. spec_opGas s avgDataSize operation < 2 ^ 256) \<and>
          spec_estimatedGas s operations operationCounts avgDataSize < 2 ^ 256 \<and>
          spec_totalFheOps operationCounts < 2 ^ 256 \<and>
          analysisCount s \<noteq> - 1 \<longrightarrow>
          (\<exists>r s'. analyzeContract toString subjectId subjectName operations operationCounts avgDataSize s
             = Inr (r, s')))"
proof (intro conjI impI)
  let ?init = "\<lparr>totalGas = 0, totalOps = 0, suggestions = [], emitted = []\<rparr>"
  let ?loop = "for_loop toString s subjectId operations operationCounts avgDataSize 0 ?init"
  let ?call = "analyzeContract toString subjectId subjectName operations operationCounts avgDataSize s"
  note outcome = for_loop_registered [OF len registered_nth [OF reg, of 0],
      of avgDataSize ?init toString subjectId]
  show "case ?call of Inl e \<Rightarrow> e = Panic 0x11
          | Inr (r, s') \<Rightarrow>
              unat (estimatedGas r) = spec_estimatedGas s operations operationCounts avgDataSize \<and>
              unat (totalFheOps r) = spec_totalFheOps operationCounts"
  proof (cases ?call)
    case (Inr p)
    obtain r s' where p: "p = (r, s')" by (cases p)
    from analyzeContract_totals(1,2) [OF Inr [unfolded p]] Inr p show ?thesis by simp
  next
    case (Inl e)
    have "e = Panic 0x11"
    proof (cases ?loop)
      case loop: (Inl e')
      with outcome have "e' = Panic 0x11" by (auto split: if_splits)
      with analyzeContract_loop_fails [OF len loop, of subjectName] Inl show ?thesis by simp
    next
      case (Inr l)
      from analyzeContract_loop_done [OF len Inr, of subjectName] Inl show ?thesis
        by (simp split: if_splits)
    qed
    with Inl show ?thesis by simp
  qed
  assume fits: "(\<forall>operation\<in>set operations. spec_opGas s avgDataSize operation < 2 ^ 256) \<and>
          spec_estimatedGas s operations operationCounts avgDataSize < 2 ^ 256 \<and>
          spec_totalFheOps operationCounts < 2 ^ 256 \<and> analysisCount s \<noteq> - 1"
  then have "\<exists>l. ?loop = Inr l"
    using outcome len by (simp add: spec_estimatedGas_range spec_totalFheOps_range)
  then obtain l where "?loop = Inr l" ..
  from analyzeContract_loop_done [OF len this, of subjectName] fits
  show "\<exists>r s'. ?call = Inr (r, s')" by simp
qed

theorem analyze_totals_witness:
  "\<exists>r s'. analyzeContract toString_decimal 7 ''Vault'' [''FHE.div'', ''FHE.not'', ''FHE.div'']
       [1, 3, 2] 4 constructor = Inr (r, s') \<and>
     unat (estimatedGas r) = 72396 \<and> unat (totalFheOps r) = 6"
proof -
  have reg: "\<forall>operation\<in>set [''FHE.div'', ''FHE.not'', ''FHE.div'']. registered constructor operation"
    by (simp add: registered_def constructor_def)
  have gas: "spec_estimatedGas constructor [''FHE.div'', ''FHE.not'', ''FHE.div''] [1, 3, 2] 4 = 72396"
    by (simp add: spec_simps constructor_def)
  have ops: "spec_totalFheOps [1, 3, 2] = 6"
    by (simp add: spec_simps)
  have og: "\<forall>operation\<in>set [''FHE.div'', ''FHE.not'', ''FHE.div'']. spec_opGas constructor 4 operation < 2 ^ 256"
    by (simp add: spec_opGas_def constructor_def)
  have cnt: "analysisCount constructor \<noteq> - 1" by (simp add: constructor_def)
  from analyze_totals [where operations = "[''FHE.div'', ''FHE.not'', ''FHE.div'']"
      and operationCounts = "[1, 3, 2]" and s = constructor and avgDataSize = 4
      and toString = toString_decimal and subjectId = 7 and subjectName = "''Vault''", OF _ reg]
    gas ops og cnt
  show ?thesis by (auto split: sum.splits)
qed

subsection \<open>C2: the suggestions\<close>

text \<open>
  C2: the suggestions of a returned analysis are, in the order of the input, one string
  for each index \<open>i\<close> at which the registry entry of \<open>operations[i]\<close> has a base cost
  above 10000 and \<open>counts[i]\<close> is above 5, and nothing else. The witness runs the
  boundary: base cost 10000 with count 6 and base cost 10001 with count 5 give no
  suggestion, base cost 10001 with count 6 gives one.
\<close>

theorem analyze_suggestions:
  "analyzeContract toString subjectId subjectName operations operationCounts avgDataSize s = Inr (r, s') \<Longrightarrow>
   optimizationSuggestions r =
     map (\<lambda>i. ''Consider reducing calls to '' @ operations ! i @
               '' ('' @ toString (operationCounts ! i) @ '' calls)'')
       (filter (\<lambda>i. 10000 < baseCost (operationCosts s (operations ! i)) \<and> 5 < operationCounts ! i)
          [0..<length operations])"
proof -
  assume call: "analyzeContract toString subjectId subjectName operations operationCounts avgDataSize s = Inr (r, s')"
  have flag: "spec_flagged s operations operationCounts =
      (\<lambda>i. 10000 < baseCost (operationCosts s (operations ! i)) \<and> 5 < operationCounts ! i)"
    by (rule ext) (simp add: spec_flagged_def)
  have sugg: "suggestion_text toString operations operationCounts =
      (\<lambda>i. ''Consider reducing calls to '' @ operations ! i @
               '' ('' @ toString (operationCounts ! i) @ '' calls)'')"
    by (rule ext) (simp add: suggestion_text_def)
  from analyzeContract_totals(3) [OF call] show ?thesis
    by (simp only: spec_suggestions_def flag sugg)
qed

theorem analyze_suggestions_witness:
  "\<exists>r s'. analyzeContract toString_decimal 9 ''Pool'' [''edge'', ''over'', ''over'', ''FHE.add'']
       [6, 5, 6, 9] 1
       (updateOperationCost ''edge'' 10000 1 (updateOperationCost ''over'' 10001 1 constructor))
     = Inr (r, s') \<and>
     optimizationSuggestions r = [''Consider reducing calls to over (6 calls)'']"
proof -
  obtain r s' where call: "analyzeContract toString_decimal 9 ''Pool''
       [''edge'', ''over'', ''over'', ''FHE.add''] [6, 5, 6, 9] 1
       (updateOperationCost ''edge'' 10000 1 (updateOperationCost ''over'' 10001 1 constructor))
     = Inr (r, s')"
    by (simp add: run_simps updateOperationCost_def constructor_def)
  from analyze_suggestions [OF call]
  have "optimizationSuggestions r = [''Consider reducing calls to over (6 calls)'']"
    by (simp add: updateOperationCost_def constructor_def toString_decimal_def decimal.simps)
  with call show ?thesis by blast
qed

subsection \<open>C3: the example batch on the default registry\<close>

text \<open>
  C3, as stated, fails: the constructor registers the operations under the names
  \<^verbatim>\<open>FHE.mul\<close> and \<^verbatim>\<open>FHE.add\<close>, so the batch \<^verbatim>\<open>["mul","add"]\<close> names no registered
  operation and the call reverts with \<^verbatim>\<open>Unknown operation\<close>.
\<close>

theorem default_batch_short_names_rejected:
  "analyzeContract toString_decimal 1 ''Token'' [''mul'', ''add''] [6, 2] 32 constructor
     = Inl (Error ''Unknown operation'')"
  by (simp add: run_simps constructor_def zeroOperationCost_def)

text \<open>
  C3, amended: on the storage right after construction, \<^verbatim>\<open>analyzeContract\<close> applied to
  the operations \<^verbatim>\<open>["FHE.mul","FHE.add"]\<close>, the counts \<^verbatim>\<open>[6,2]\<close> and the average
  data size 32 returns: estimated gas 104480, 8 operations in total, and exactly one
  suggestion, for \<^verbatim>\<open>FHE.mul\<close>. The storage afterwards holds the analysis under the
  subject, the subject in the log and the counter at one.
\<close>

theorem default_batch_result:
  "transact (analyzeContract toString subjectId subjectName [''FHE.mul'', ''FHE.add''] [6, 2] 32)
     constructor =
     (Inr \<lparr>contractName = subjectName, totalFheOps = 8, estimatedGas = 104480,
           optimizationSuggestions =
             [''Consider reducing calls to FHE.mul ('' @ toString 6 @ '' calls)'']\<rparr>,
      constructor
        \<lparr>events :=
           [OptimizationSuggested subjectId
              (''Consider reducing calls to FHE.mul ('' @ toString 6 @ '' calls)''),
            ContractAnalyzed subjectId 104480],
         contractAnalyses := (contractAnalyses constructor)
           (subjectId := \<lparr>contractName = subjectName, totalFheOps = 8, estimatedGas = 104480,
              optimizationSuggestions =
                [''Consider reducing calls to FHE.mul ('' @ toString 6 @ '' calls)'']\<rparr>),
         analyzedContracts := [subjectId],
         analysisCount := 1\<rparr>)"
  by (simp add: transact_def run_simps constructor_def)

subsection \<open>C4: arrays of different lengths\<close>

text \<open>
  C4: when the two arrays differ in length, \<^verbatim>\<open>analyzeContract\<close> reverts with
  \<^verbatim>\<open>Invalid input lengths\<close> and the storage is what it was before the call: no
  analysis written, nothing appended to the log, the counter not incremented.
\<close>

theorem analyze_mismatched_lengths:
  "length operations \<noteq> length operationCounts \<Longrightarrow>
   transact (analyzeContract toString subjectId subjectName operations operationCounts avgDataSize) s
     = (Inl (Error ''Invalid input lengths''), s)"
  by (simp add: transact_def analyzeContract_mismatch)

theorem analyze_mismatched_lengths_witness:
  "length [''FHE.add'', ''FHE.mul''] \<noteq> length [3 :: uint256] \<and>
   transact (analyzeContract toString_decimal 1 ''Token'' [''FHE.add'', ''FHE.mul''] [3] 32)
     constructor = (Inl (Error ''Invalid input lengths''), constructor)"
  using analyze_mismatched_lengths [where operations = "[''FHE.add'', ''FHE.mul'']"
      and operationCounts = "[3]" and toString = toString_decimal and subjectId = 1
      and subjectName = "''Token''" and avgDataSize = 32 and s = constructor]
  by simp

subsection \<open>C5: a batch with an unregistered operation\<close>

text \<open>
  C5, as stated, fails: when the arithmetic for a registered operation before the
  unregistered one overflows (here the gas times the count, in the first pass), the call
  reverts with the arithmetic panic, not with \<^verbatim>\<open>Unknown operation\<close>.
\<close>

theorem analyze_overflow_before_unknown:
  "\<not> registered constructor ''FHE.pow'' \<and>
   analyzeContract toString_decimal 1 ''Token'' [''FHE.add'', ''FHE.add'', ''FHE.pow'']
     [2 ^ 255, 2 ^ 255, 1] 0 constructor = Inl (Panic 0x11)"
  by (simp add: run_simps constructor_def registered_def zeroOperationCost_def)

text \<open>
  C5, amended: for every usage report with arrays of equal length that lists an
  unregistered operation, \<^verbatim>\<open>analyzeContract\<close> reverts, with \<^verbatim>\<open>Unknown operation\<close> or with
  the arithmetic panic, and the storage is what it was before the call, however many
  registered operations come first. With \<open>k\<close> the index of the first unregistered
  operation, the failure is \<^verbatim>\<open>Unknown operation\<close> exactly when the gas of each operation
  before \<open>k\<close> and the two sums over the indices before \<open>k\<close> are below \<open>2 ^ 256\<close>, and
  the arithmetic panic otherwise.
\<close>

theorem analyze_unknown_operation:
  assumes len: "length operations = length operationCounts"
  shows "((\<exists>operation\<in>set operations. \<not> registered s operation) \<longrightarrow>
            transact (analyzeContract toString subjectId subjectName operations operationCounts avgDataSize) s
              = (Inl (Error ''Unknown operation''), s) \<or>
            transact (analyzeContract toString subjectId subjectName operations operationCounts avgDataSize) s
              = (Inl (Panic 0x11), s)) \<and>
         (k < length operations \<and> \<not> registered s (operations ! k) \<and>
          (\<forall>j<k. registered s (operations ! j)) \<longrightarrow>
            transact (analyzeContract toString subjectId subjectName operations operationCounts avgDataSize) s
              = (Inl (if (\<forall>j<k. spec_opGas s avgDataSize (operations ! j) < 2 ^ 256) \<and>
                         spec_gas_range s operations operationCounts avgDataSize 0 k < 2 ^ 256 \<and>
                         spec_ops_range operationCounts 0 k < 2 ^ 256
                      then Error ''Unknown operation'' else Panic 0x11), s))"
proof -
  let ?init = "\<lparr>totalGas = 0, totalOps = 0, suggestions = [], emitted = []\<rparr>"
  let ?call = "analyzeContract toString subjectId subjectName operations operationCounts avgDataSize"
  have first: "transact ?call s
      = (Inl (if (\<forall>j<k. spec_opGas s avgDataSize (operations ! j) < 2 ^ 256) \<and>
                 spec_gas_range s operations operationCounts avgDataSize 0 k < 2 ^ 256 \<and>
                 spec_ops_range operationCounts 0 k < 2 ^ 256
              then Error ''Unknown operation'' else Panic 0x11), s)"
    if k: "k < length operations" "\<not> registered s (operations ! k)"
      "\<forall>j<k. registered s (operations ! j)" for k
  proof -
    from for_loop_first_unregistered [OF len k, of toString subjectId avgDataSize ?init]
    have "for_loop toString s subjectId operations operationCounts avgDataSize 0 ?init =
        Inl (if (\<forall>j<k. spec_opGas s avgDataSize (operations ! j) < 2 ^ 256) \<and>
                 spec_gas_range s operations operationCounts avgDataSize 0 k < 2 ^ 256 \<and>
                 spec_ops_range operationCounts 0 k < 2 ^ 256
              then Error ''Unknown operation'' else Panic 0x11)"
      by simp
    from analyzeContract_loop_fails [OF len this, of subjectName] show ?thesis
      by (simp add: transact_def)
  qed
  have some: "transact ?call s = (Inl (Error ''Unknown operation''), s) \<or>
      transact ?call s = (Inl (Panic 0x11), s)"
    if "\<exists>operation\<in>set operations. \<not> registered s operation"
  proof -
    from that obtain i where "i < length operations \<and> \<not> registered s (operations ! i)"
      by (auto simp: in_set_conv_nth)
    then have ex: "\<exists>i. i < length operations \<and> \<not> registered s (operations ! i)" ..
    define k0 where "k0 = (LEAST i. i < length operations \<and> \<not> registered s (operations ! i))"
    have k0: "k0 < length operations \<and> \<not> registered s (operations ! k0)"
      unfolding k0_def by (rule LeastI_ex [OF ex])
    have "\<forall>j<k0. registered s (operations ! j)"
    proof (intro allI impI)
      fix j assume j: "j < k0"
      from not_less_Least [OF j [unfolded k0_def]] j k0
      show "registered s (operations ! j)" by simp
    qed
    from first [of k0] k0 this show ?thesis by (auto split: if_splits)
  qed
  from first [of k] some show ?thesis by blast
qed

theorem analyze_unknown_operation_witness:
  "transact (analyzeContract toString_decimal 1 ''Token'' [''FHE.add'', ''FHE.pow'', ''FHE.mul'']
       [1, 2, 3] 32) constructor = (Inl (Error ''Unknown operation''), constructor) \<and>
   transact (analyzeContract toString_decimal 1 ''Token'' [''FHE.add'', ''FHE.add'', ''FHE.pow'']
       [2 ^ 255, 2 ^ 255, 1] 0) constructor = (Inl (Panic 0x11), constructor)"
proof -
  have r: "registered constructor ''FHE.add''" "\<not> registered constructor ''FHE.pow''"
    by (simp_all add: registered_def constructor_def zeroOperationCost_def)
  have a: "transact (analyzeContract toString_decimal 1 ''Token'' [''FHE.add'', ''FHE.pow'', ''FHE.mul'']
       [1, 2, 3] 32) constructor = (Inl (Error ''Unknown operation''), constructor)"
    using analyze_unknown_operation [where operations = "[''FHE.add'', ''FHE.pow'', ''FHE.mul'']"
        and operationCounts = "[1, 2, 3]" and s = constructor and k = 1
        and avgDataSize = 32 and toString = toString_decimal and subjectId = 1
        and subjectName = "''Token''"] r
    by (simp add: spec_simps constructor_def)
  have first: "\<forall>j<Suc (Suc 0). registered constructor ([''FHE.add'', ''FHE.add'', ''FHE.pow''] ! j)"
  proof (intro allI impI)
    fix j :: nat
    assume "j < Suc (Suc 0)"
    then consider "j = 0" | "j = 1" by linarith
    then show "registered constructor ([''FHE.add'', ''FHE.add'', ''FHE.pow''] ! j)"
      by cases (simp_all add: r)
  qed
  have range: "\<not> spec_ops_range [2 ^ 255, 2 ^ 255, 1] 0 (Suc (Suc 0)) < 2 ^ 256"
    by (simp add: spec_simps)
  have b: "transact (analyzeContract toString_decimal 1 ''Token'' [''FHE.add'', ''FHE.add'', ''FHE.pow'']
       [2 ^ 255, 2 ^ 255, 1] 0) constructor = (Inl (Panic 0x11), constructor)"
    using analyze_unknown_operation [where operations = "[''FHE.add'', ''FHE.add'', ''FHE.pow'']"
        and operationCounts = "[2 ^ 255, 2 ^ 255, 1]" and s = constructor and k = "Suc (Suc 0)"
        and avgDataSize = 0 and toString = toString_decimal and subjectId = 1
        and subjectName = "''Token''"] r first range
    by simp
  from a b show ?thesis by simp
qed

subsection \<open>C6: a zero base cost unregisters\<close>

text \<open>
  C6: after \<^verbatim>\<open>updateOperationCost(name, 0, 0)\<close>, \<^verbatim>\<open>estimateSingleOperation(name, dataSize)\<close>
  reverts with \<^verbatim>\<open>Unknown operation\<close>, for every name, every data size and every storage
  before the update.
\<close>

theorem zero_baseCost_is_unknown:
  "estimateSingleOperation name dataSize (updateOperationCost name 0 0 s) =
     Inl (Error ''Unknown operation'')"
  by (simp add: estimateSingleOperation_def updateOperationCost_def)

subsection \<open>C7: the estimate of a single operation\<close>

text \<open>
  C7, as stated, fails: for a registered operation and a large data size the checked
  multiplication panics, so the call does not succeed for every data size.
\<close>

theorem estimate_large_dataSize_panics:
  "registered constructor ''FHE.add'' \<and>
   estimateSingleOperation ''FHE.add'' (2 ^ 255) constructor = Inl (Panic 0x11)"
  by (simp add: estimateSingleOperation_def checked_mul_def constructor_def registered_def)

text \<open>
  C7, amended: for every registered operation, \<^verbatim>\<open>estimateSingleOperation\<close> returns
  exactly \<open>baseCost + perByteCost * dataSize\<close> (unwrapped) when that number is below
  \<open>2 ^ 256\<close>, and reverts with the arithmetic panic otherwise; for data size 0 it always
  returns the base cost.
\<close>

theorem estimate_registered:
  assumes reg: "registered s operation"
  shows "estimateSingleOperation operation dataSize s =
      (if spec_opGas s dataSize operation < 2 ^ 256
       then Inr (baseCost (operationCosts s operation) +
                 perByteCost (operationCosts s operation) * dataSize)
       else Inl (Panic 0x11)) \<and>
     (spec_opGas s dataSize operation < 2 ^ 256 \<longrightarrow>
       unat (baseCost (operationCosts s operation) +
             perByteCost (operationCosts s operation) * dataSize) =
       unat (baseCost (operationCosts s operation)) +
       unat (perByteCost (operationCosts s operation)) * unat dataSize) \<and>
     estimateSingleOperation operation 0 s = Inr (baseCost (operationCosts s operation))"
proof (intro conjI impI)
  show "estimateSingleOperation operation dataSize s =
      (if spec_opGas s dataSize operation < 2 ^ 256
       then Inr (baseCost (operationCosts s operation) +
                 perByteCost (operationCosts s operation) * dataSize)
       else Inl (Panic 0x11))"
    by (rule estimateSingleOperation_registered(1) [OF reg])
  assume "spec_opGas s dataSize operation < 2 ^ 256"
  from estimateSingleOperation_registered(2) [OF reg this]
  show "unat (baseCost (operationCosts s operation) +
             perByteCost (operationCosts s operation) * dataSize) =
       unat (baseCost (operationCosts s operation)) +
       unat (perByteCost (operationCosts s operation)) * unat dataSize"
    by (simp add: spec_opGas_def)
next
  have "spec_opGas s 0 operation < 2 ^ 256"
    using unat_uint256_less [of "baseCost (operationCosts s operation)"]
    by (simp add: spec_opGas_def)
  with estimateSingleOperation_registered(1) [OF reg, of 0]
  show "estimateSingleOperation operation 0 s = Inr (baseCost (operationCosts s operation))"
    by simp
qed

theorem estimate_registered_witness:
  "registered constructor ''FHE.div'' \<and>
   estimateSingleOperation ''FHE.div'' 0 constructor = Inr 20000 \<and>
   estimateSingleOperation ''FHE.div'' 1 constructor = Inr 20025 \<and>
   estimateSingleOperation ''FHE.div'' (2 ^ 200) constructor = Inr (20000 + 25 * 2 ^ 200) \<and>
   estimateSingleOperation ''FHE.div'' (2 ^ 255) constructor = Inl (Panic 0x11)"
proof -
  have reg: "registered constructor ''FHE.div''"
    by (simp add: registered_def constructor_def)
  from estimate_registered [OF reg, of 0] estimate_registered [OF reg, of 1] estimate_registered [OF reg, of "2 ^ 200"]
    estimate_registered [OF reg, of "2 ^ 255"] reg
  show ?thesis
    by (simp add: spec_opGas_def constructor_def)
qed

subsection \<open>C8: checked arithmetic\<close>




subsection \<open>C9: analysing a subject twice\<close>

text \<open>
  C9: when the same subject is analysed twice in succession, both calls returning,
  \<^verbatim>\<open>getAnalysis\<close> of the subject afterwards is the result of the second call alone, and
  \<^verbatim>\<open>getAllAnalyzedContracts\<close> is the log from before with the subject appended twice, in
  order: each returning call makes the log one longer, duplicates included.
\<close>

theorem analyze_twice_overwrites:
  assumes first: "analyzeContract toString subjectId name1 operations1 counts1 avgDataSize1 s = Inr (r1, s1)"
    and second: "analyzeContract toString subjectId name2 operations2 counts2 avgDataSize2 s1 = Inr (r2, s2)"
  shows "getAnalysis subjectId s1 = r1 \<and> getAnalysis subjectId s2 = r2 \<and>
    getAllAnalyzedContracts s1 = getAllAnalyzedContracts s @ [subjectId] \<and>
    getAllAnalyzedContracts s2 = getAllAnalyzedContracts s @ [subjectId, subjectId] \<and>
    length (getAllAnalyzedContracts s1) = length (getAllAnalyzedContracts s) + 1 \<and>
    length (getAllAnalyzedContracts s2) = length (getAllAnalyzedContracts s1) + 1"
  using analyzeContract_store(1,2) [OF first] analyzeContract_store(1,2) [OF second]
  by (simp add: getAnalysis_def getAllAnalyzedContracts_def)

theorem analyze_twice_overwrites_witness:
  "\<exists>r1 s1 r2 s2.
     analyzeContract toString_decimal 5 ''Vault'' [''FHE.mul''] [7] 8 constructor = Inr (r1, s1) \<and>
     analyzeContract toString_decimal 5 ''Vault v2'' [''FHE.add'', ''FHE.eq''] [2, 1] 16 s1 = Inr (r2, s2) \<and>
     getAnalysis 5 s2 = r2 \<and> estimatedGas r1 = 106120 \<and> estimatedGas r2 = 17512 \<and>
     r1 \<noteq> r2 \<and> getAllAnalyzedContracts s2 = [5, 5]"
proof -
  obtain r1 s1 where first:
    "analyzeContract toString_decimal 5 ''Vault'' [''FHE.mul''] [7] 8 constructor = Inr (r1, s1)"
    and r1: "estimatedGas r1 = 106120"
    and costs: "operationCosts s1 = operationCosts constructor"
    and cnt: "analysisCount s1 = 1"
    by (simp add: run_simps constructor_def)
  obtain r2 s2 where second:
    "analyzeContract toString_decimal 5 ''Vault v2'' [''FHE.add'', ''FHE.eq''] [2, 1] 16 s1 = Inr (r2, s2)"
    and r2: "estimatedGas r2 = 17512"
    by (simp add: run_simps costs cnt constructor_def)
  from analyze_twice_overwrites [OF first second] r1 r2
  have "getAnalysis 5 s2 = r2 \<and> r1 \<noteq> r2 \<and> getAllAnalyzedContracts s2 = [5, 5]"
    by (auto simp: getAllAnalyzedContracts_def constructor_def)
  with first second r1 r2 show ?thesis by blast
qed

subsection \<open>C10: the counter is the length of the log\<close>

text \<open>
  C10: in every state the contract can reach from its construction, the analysis counter
  equals the length of the log of analysed subjects. Every \<^verbatim>\<open>analyzeContract\<close> that
  returns increments both by exactly one, one that reverts leaves the storage as it
  was, and \<^verbatim>\<open>updateOperationCost\<close> changes neither; the other functions are views.
\<close>

theorem counter_equals_log_length:
  "(reachable toString s \<longrightarrow> unat (analysisCount s) = length (analyzedContracts s)) \<and>
   (analyzeContract toString subjectId subjectName operations operationCounts avgDataSize s = Inr (r, s') \<longrightarrow>
      unat (analysisCount s') = unat (analysisCount s) + 1 \<and>
      length (analyzedContracts s') = length (analyzedContracts s) + 1) \<and>
   (analyzeContract toString subjectId subjectName operations operationCounts avgDataSize s = Inl e \<longrightarrow>
      snd (transact (analyzeContract toString subjectId subjectName operations operationCounts avgDataSize) s) = s) \<and>
   analysisCount (updateOperationCost operation base perByte s) = analysisCount s \<and>
   analyzedContracts (updateOperationCost operation base perByte s) = analyzedContracts s"
proof (intro conjI impI)
  assume "reachable toString s"
  then show "unat (analysisCount s) = length (analyzedContracts s)"
  proof (induction rule: reachable.induct)
    case constructed
    show ?case by (simp add: constructor_def)
  next
    case (updated s operation base perByte)
    then show ?case by (simp add: updateOperationCost_def)
  next
    case (analyzed s contractAddress name operations operationCounts avgDataSize r s')
    show ?case
    proof (cases "analyzeContract toString contractAddress name operations operationCounts avgDataSize s")
      case (Inl e)
      with analyzed.hyps(2) have "s' = s" by (simp add: transact_def)
      with analyzed.IH show ?thesis by simp
    next
      case (Inr p)
      obtain r0 s0 where p: "p = (r0, s0)" by (cases p)
      with Inr analyzed.hyps(2) have "s' = s0" by (simp add: transact_def)
      with analyzeContract_store(2,3) [OF Inr [unfolded p]] analyzed.IH show ?thesis by simp
    qed
  qed
next
  assume call: "analyzeContract toString subjectId subjectName operations operationCounts avgDataSize s = Inr (r, s')"
  from analyzeContract_store(2,3) [OF call]
  show "unat (analysisCount s') = unat (analysisCount s) + 1"
    and "length (analyzedContracts s') = length (analyzedContracts s) + 1"
    by simp_all
next
  assume "analyzeContract toString subjectId subjectName operations operationCounts avgDataSize s = Inl e"
  then show "snd (transact (analyzeContract toString subjectId subjectName operations operationCounts avgDataSize) s) = s"
    by (simp add: transact_def)
next
  show "analysisCount (updateOperationCost operation base perByte s) = analysisCount s"
    by (simp add: updateOperationCost_def)
  show "analyzedContracts (updateOperationCost operation base perByte s) = analyzedContracts s"
    by (simp add: updateOperationCost_def)
qed

theorem counter_equals_log_length_witness:
  "\<exists>r s1. analyzeContract toString_decimal 5 ''Vault'' [''FHE.mul''] [7] 8 constructor = Inr (r, s1) \<and>
     reachable toString_decimal (updateOperationCost ''FHE.rot'' 9000 3 s1) \<and>
     unat (analysisCount (updateOperationCost ''FHE.rot'' 9000 3 s1)) = 1 \<and>
     length (analyzedContracts (updateOperationCost ''FHE.rot'' 9000 3 s1)) = 1 \<and>
     snd (transact (analyzeContract toString_decimal 5 ''Vault'' [''FHE.rot''] [7] 8) constructor)
       = constructor"
proof -
  obtain r s1 where call:
    "analyzeContract toString_decimal 5 ''Vault'' [''FHE.mul''] [7] 8 constructor = Inr (r, s1)"
    by (simp add: run_simps constructor_def)
  then have "transact (analyzeContract toString_decimal 5 ''Vault'' [''FHE.mul''] [7] 8) constructor
      = (Inr r, s1)"
    by (simp add: transact_def)
  from reachable.analyzed [OF reachable.constructed this]
  have "reachable toString_decimal s1" .
  then have reach: "reachable toString_decimal (updateOperationCost ''FHE.rot'' 9000 3 s1)"
    by (rule reachable.updated)
  have start: "unat (analysisCount constructor) = 0" "length (analyzedContracts constructor) = 0"
    by (simp_all add: constructor_def)
  from counter_equals_log_length [where toString = toString_decimal
      and s = "updateOperationCost ''FHE.rot'' 9000 3 s1"] reach
  have inv: "unat (analysisCount (updateOperationCost ''FHE.rot'' 9000 3 s1)) =
      length (analyzedContracts (updateOperationCost ''FHE.rot'' 9000 3 s1))"
    by simp
  from counter_equals_log_length [where toString = toString_decimal and s = constructor and s' = s1 and r = r
      and subjectId = 5 and subjectName = "''Vault''" and operations = "[''FHE.mul'']"
      and operationCounts = "[7]" and avgDataSize = 8] call start
  have one: "length (analyzedContracts s1) = 1" by simp
  from counter_equals_log_length [where s = s1 and operation = "''FHE.rot''" and base = 9000 and perByte = 3] one
  have len1: "length (analyzedContracts (updateOperationCost ''FHE.rot'' 9000 3 s1)) = 1"
    by simp
  have "analyzeContract toString_decimal 5 ''Vault'' [''FHE.rot''] [7] 8 constructor
      = Inl (Error ''Unknown operation'')"
    by (simp add: run_simps constructor_def zeroOperationCost_def)
  with counter_equals_log_length [where toString = toString_decimal and s = constructor
      and subjectId = 5 and subjectName = "''Vault''" and operations = "[''FHE.rot'']"
      and operationCounts = "[7]" and avgDataSize = 8 and e = "Error ''Unknown operation''"]
  have reverted: "snd (transact (analyzeContract toString_decimal 5 ''Vault'' [''FHE.rot''] [7] 8)
      constructor) = constructor"
    by simp
  from len1 inv call reach reverted show ?thesis by auto
qed

end
